theory Spec2Isabelle
  imports Complex_Main "HOL-Library.Sublist" "HOL-Library.Log_Nat"
begin

section \<open>JavaScript numbers\<close>

text \<open>
  The dashboard computes with JavaScript numbers, the binary64 numbers of IEEE 754. A
  number is modelled by its value: a rational, or one of the three special values. An
  arithmetic operation of JavaScript is the exact operation (\<open>js_sub\<close>, \<open>js_mul\<close>,
  \<open>js_div\<close> below) followed by the rounding \<open>f64\<close> of the exact result to the nearest
  binary64 number. What the model leaves out is the sign of zero: a zero that reaches a
  divisor below is the positive zero (a sum that starts from \<open>0\<close>, divided by a
  positive length). Session scores and counts are integers, whose sums are exact.
\<close>

datatype jsnum = Fin rat | PosInf | NegInf | NaN

definition num :: "int \<Rightarrow> jsnum" where
  "num i = Fin (of_int i)"

definition inf_of_sign :: "rat \<Rightarrow> jsnum" where
  "inf_of_sign s = (if s = 0 then NaN else if 0 < s then PosInf else NegInf)"

fun js_sub :: "jsnum \<Rightarrow> jsnum \<Rightarrow> jsnum" where
  "js_sub (Fin a) (Fin b) = Fin (a - b)"
| "js_sub NaN _ = NaN"
| "js_sub _ NaN = NaN"
| "js_sub PosInf PosInf = NaN"
| "js_sub NegInf NegInf = NaN"
| "js_sub PosInf _ = PosInf"
| "js_sub NegInf _ = NegInf"
| "js_sub (Fin a) PosInf = NegInf"
| "js_sub (Fin a) NegInf = PosInf"

fun js_mul :: "jsnum \<Rightarrow> jsnum \<Rightarrow> jsnum" where
  "js_mul (Fin a) (Fin b) = Fin (a * b)"
| "js_mul NaN _ = NaN"
| "js_mul _ NaN = NaN"
| "js_mul PosInf (Fin b) = inf_of_sign b"
| "js_mul NegInf (Fin b) = inf_of_sign (- b)"
| "js_mul (Fin a) PosInf = inf_of_sign a"
| "js_mul (Fin a) NegInf = inf_of_sign (- a)"
| "js_mul PosInf PosInf = PosInf"
| "js_mul NegInf NegInf = PosInf"
| "js_mul PosInf NegInf = NegInf"
| "js_mul NegInf PosInf = NegInf"

text \<open>
  Division never throws in JavaScript: a non-zero number over zero is an infinity of the
  dividend's sign, and zero over zero is NaN.
\<close>

fun js_div :: "jsnum \<Rightarrow> jsnum \<Rightarrow> jsnum" where
  "js_div (Fin a) (Fin b) = (if b = 0 then inf_of_sign a else Fin (a / b))"
| "js_div NaN _ = NaN"
| "js_div _ NaN = NaN"
| "js_div PosInf (Fin b) = (if b < 0 then NegInf else PosInf)"
| "js_div NegInf (Fin b) = (if b < 0 then PosInf else NegInf)"
| "js_div (Fin a) PosInf = Fin 0"
| "js_div (Fin a) NegInf = Fin 0"
| "js_div PosInf PosInf = NaN"
| "js_div PosInf NegInf = NaN"
| "js_div NegInf PosInf = NaN"
| "js_div NegInf NegInf = NaN"

text \<open>\<open>Math.round\<close> rounds to the nearest integer, a half upwards.\<close>

fun js_round :: "jsnum \<Rightarrow> jsnum" where
  "js_round (Fin a) = Fin (of_int \<lfloor>a + 1 / 2\<rfloor>)"
| "js_round PosInf = PosInf"
| "js_round NegInf = NegInf"
| "js_round NaN = NaN"

text \<open>The comparisons \<open>>\<close> and \<open><\<close>: false whenever an operand is NaN.\<close>

fun js_lt :: "jsnum \<Rightarrow> jsnum \<Rightarrow> bool" where
  "js_lt (Fin a) (Fin b) = (a < b)"
| "js_lt NaN _ = False"
| "js_lt _ NaN = False"
| "js_lt _ NegInf = False"
| "js_lt PosInf _ = False"
| "js_lt NegInf _ = True"
| "js_lt (Fin a) PosInf = True"

definition js_gt :: "jsnum \<Rightarrow> jsnum \<Rightarrow> bool" where
  "js_gt a b = js_lt b a"

fun js_le :: "jsnum \<Rightarrow> jsnum \<Rightarrow> bool" where
  "js_le NaN _ = False"
| "js_le _ NaN = False"
| "js_le a b = (a = b \<or> js_lt a b)"

definition isFinite :: "jsnum \<Rightarrow> bool" where
  "isFinite x = (case x of Fin _ \<Rightarrow> True | _ \<Rightarrow> False)"

subsection \<open>Rounding to binary64\<close>

text \<open>
  The binary exponent of a positive rational \<open>x\<close>: the \<open>e\<close> with
  \<open>2\<^sup>e \<le> x < 2\<^sup>e\<^sup>+\<^sup>1\<close>, found from the bit lengths of numerator and denominator.
\<close>

definition expo :: "rat \<Rightarrow> int" where
  "expo x =
     (let e0 = bitlen (fst (quotient_of x)) - bitlen (snd (quotient_of x))
      in if 2 powi e0 \<le> x then e0 else e0 - 1)"

text \<open>Rounding to the nearest integer, a tie to the even one.\<close>

definition rne :: "rat \<Rightarrow> int" where
  "rne r =
     (let f = \<lfloor>r\<rfloor>; d = r - of_int f
      in if d < 1 / 2 then f else if 1 / 2 < d then f + 1 else if even f then f else f + 1)"

text \<open>
  A binary64 number has a significand of 53 bits and an exponent of at least -1022, below
  which the numbers are subnormal. So the numbers next to \<open>x\<close> are the multiples of
  \<open>quantum x\<close>, and \<open>x\<close> is rounded to the nearest of them, a tie to the even multiple. The
  result is an infinity when its magnitude reaches \<open>2\<^sup>1\<^sup>0\<^sup>2\<^sup>4\<close>, which it does when the
  exponent is above 1023, or is 1023 and the significand was rounded up to \<open>2\<^sup>5\<^sup>3\<close>.
\<close>

definition cexp :: "rat \<Rightarrow> int" where
  "cexp x = max (expo \<bar>x\<bar>) (- 1022)"

definition quantum :: "rat \<Rightarrow> rat" where
  "quantum x = 2 powi (cexp x - 52)"

definition mant :: "rat \<Rightarrow> int" where
  "mant x = rne (x / quantum x)"

definition overflows :: "rat \<Rightarrow> bool" where
  "overflows x = (1023 < cexp x \<or> (cexp x = 1023 \<and> 2 ^ 53 \<le> \<bar>mant x\<bar>))"

definition f64r :: "rat \<Rightarrow> jsnum" where
  "f64r x =
     (if x = 0 then Fin 0
      else if overflows x then (if 0 < x then PosInf else NegInf)
      else Fin (of_int (mant x) * quantum x))"

fun f64 :: "jsnum \<Rightarrow> jsnum" where
  "f64 (Fin x) = f64r x"
| "f64 PosInf = PosInf"
| "f64 NegInf = NegInf"
| "f64 NaN = NaN"

text \<open>The literal \<open>0.7\<close> denotes the binary64 number nearest to 7/10.\<close>

definition lit_0_7 :: jsnum where
  "lit_0_7 = f64r (7 / 10)"

section \<open>Arrays\<close>

text \<open>
  \<open>Array.prototype.slice(start, end)\<close>: a negative index counts from the end of the
  array, and both indices are clamped to the array.
\<close>

definition slice :: "int \<Rightarrow> int \<Rightarrow> 'a list \<Rightarrow> 'a list" where
  "slice start stop xs =
     (let len = int (length xs);
          k = (if start < 0 then max (len + start) 0 else min start len);
          final = (if stop < 0 then max (len + stop) 0 else min stop len)
      in take (nat (final - k)) (drop (nat k) xs))"

text \<open>\<open>slice(start)\<close>, with the end left out, runs to the end of the array.\<close>

definition slice_from :: "int \<Rightarrow> 'a list \<Rightarrow> 'a list" where
  "slice_from start xs = slice start (int (length xs)) xs"

text \<open>\<open>Array.prototype.reduce(f, init)\<close>, from the left.\<close>

fun reduce :: "('b \<Rightarrow> 'a \<Rightarrow> 'b) \<Rightarrow> 'b \<Rightarrow> 'a list \<Rightarrow> 'b" where
  "reduce f acc [] = acc"
| "reduce f acc (x # xs) = reduce f (f acc x) xs"

section \<open>The dashboard's statistics (Dashboard.tsx)\<close>

text \<open>
  Modelled from the spec: the declarations of \<open>SessionHistoryItem\<close> and \<open>UserStats\<close>
  live in the types module, which is not among the sources. The fields are the ones the
  dashboard reads; the score is an integer and the three sub-scores are optional
  integers, \<open>None\<close> standing for an absent (undefined) field. The field \<open>id\<close> is named
  \<open>session_id\<close> here.
\<close>

record SessionHistoryItem =
  session_id :: string
  topic :: string
  date :: string
  durationSeconds :: int
  score :: int
  vocabularyScore :: "int option"
  clarityScore :: "int option"
  persuasionScore :: "int option"

record UserStats =
  totalSessions :: int
  totalMinutes :: int

text \<open>
  The win rate. \<open>stats\<close> is \<open>UserStats | null\<close>. The two products and the quotient are
  rounded to binary64 each; \<open>Math.round\<close> gives an integer, which needs no rounding.
\<close>

definition winRate :: "UserStats option \<Rightarrow> jsnum" where
  "winRate stats =
     (case stats of
        None \<Rightarrow> num 0
      | Some s \<Rightarrow>
          if totalSessions s > 0
          then f64 (js_div
                 (js_round (f64 (js_mul (f64 (js_mul (num (totalSessions s)) lit_0_7)) (num 100))))
                 (num 100))
          else num 0)"

definition recentSessions :: "SessionHistoryItem list \<Rightarrow> SessionHistoryItem list" where
  "recentSessions history = slice 0 10 history"

text \<open>\<open>v || 0\<close> on an optional number: an absent value and the number 0 are both falsy.\<close>

definition or_zero :: "int option \<Rightarrow> int" where
  "or_zero v = (case v of None \<Rightarrow> 0 | Some n \<Rightarrow> if n = 0 then 0 else n)"

text \<open>
  The three recent averages, and the performance score further down, pass the quotient of
  an integer sum by a length to \<open>Math.round\<close> at once. That quotient is kept exact here:
  for a sum from 0 to below \<open>2\<^sup>5\<^sup>2\<close> its rounding to binary64 does not change what
  \<open>Math.round\<close> returns (lemma \<open>round_quotient_binary64\<close>).
\<close>

definition avgVocabulary :: "SessionHistoryItem list \<Rightarrow> jsnum" where
  "avgVocabulary history =
     (if length (recentSessions history) > 0
      then js_round (js_div
             (num (reduce (\<lambda>sum s. sum + or_zero (vocabularyScore s)) 0 (recentSessions history)))
             (num (int (length (recentSessions history)))))
      else num 0)"

definition avgClarity :: "SessionHistoryItem list \<Rightarrow> jsnum" where
  "avgClarity history =
     (if length (recentSessions history) > 0
      then js_round (js_div
             (num (reduce (\<lambda>sum s. sum + or_zero (clarityScore s)) 0 (recentSessions history)))
             (num (int (length (recentSessions history)))))
      else num 0)"

definition avgPersuasion :: "SessionHistoryItem list \<Rightarrow> jsnum" where
  "avgPersuasion history =
     (if length (recentSessions history) > 0
      then js_round (js_div
             (num (reduce (\<lambda>sum s. sum + or_zero (persuasionScore s)) 0 (recentSessions history)))
             (num (int (length (recentSessions history)))))
      else num 0)"

text \<open>
  The improvement rate. \<open>Math.floor(history.length / 2)\<close> is the floor of an exact half.
  The two means, their difference, the quotient and the product by 100 are rounded to
  binary64 each, before \<open>Math.round\<close>.
\<close>

definition calculateImprovementRate :: "SessionHistoryItem list \<Rightarrow> jsnum" where
  "calculateImprovementRate history =
     (if length history < 4 then num 0
      else
        let halfPoint = \<lfloor>rat_of_int (int (length history)) / 2\<rfloor>;
            recentHalf = slice 0 halfPoint history;
            olderHalf = slice_from halfPoint history;
            recentAvg = f64 (js_div (num (reduce (\<lambda>sum s. sum + score s) 0 recentHalf))
                               (num (int (length recentHalf))));
            olderAvg = f64 (js_div (num (reduce (\<lambda>sum s. sum + score s) 0 olderHalf))
                              (num (int (length olderHalf))))
        in js_round (f64 (js_mul (f64 (js_div (f64 (js_sub recentAvg olderAvg)) olderAvg))
                            (num 100))))"

text \<open>
  The number shown on the Performance Score card (an expression in the markup, named
  here after the card).
\<close>

definition performanceScore :: "SessionHistoryItem list \<Rightarrow> jsnum" where
  "performanceScore history =
     (if length history > 0
      then js_round (js_div (num (reduce (\<lambda>sum session. sum + score session) 0 history))
             (num (int (length history))))
      else num 0)"

text \<open>
  The Improvement Rate card: the sign put before the number, and the badge with an
  arrow, which is rendered only for a history of at least four sessions.
\<close>

datatype arrow = Up | Down | Flat

definition improvementSign :: "SessionHistoryItem list \<Rightarrow> string" where
  "improvementSign history =
     (if js_gt (calculateImprovementRate history) (num 0) then ''+'' else '''')"

definition improvementIndicator :: "SessionHistoryItem list \<Rightarrow> arrow option" where
  "improvementIndicator history =
     (if length history \<ge> 4
      then Some (if js_gt (calculateImprovementRate history) (num 0) then Up
                 else if js_lt (calculateImprovementRate history) (num 0) then Down
                 else Flat)
      else None)"

text \<open>A session with a given score, for examples.\<close>

definition session :: "int \<Rightarrow> SessionHistoryItem" where
  "session n = \<lparr>session_id = '''', topic = '''', date = '''', durationSeconds = 0, score = n,
     vocabularyScore = None, clarityScore = None, persuasionScore = None\<rparr>"

text \<open>
  Everything the component derives from its two inputs. Nothing in these computations
  throws: \<open>reduce\<close> is given an initial value, \<open>slice\<close> clamps its indices and a
  division by zero is a value. The result is therefore always the right summand; the left
  one is the failure that the specification describes and the component never raises.
\<close>

datatype error = InvalidArgument



subsection \<open>The specification's words\<close>

text \<open>The arithmetic mean of a list of scores: sum divided by count.\<close>

definition arithmetic_mean :: "int list \<Rightarrow> jsnum" where
  "arithmetic_mean xs = js_div (num (sum_list xs)) (num (int (length xs)))"

text \<open>
  The improvement rate as the specification words it: the history is split into its first
  \<open>floor(n/2)\<close> entries and the rest, \<open>recentAvg\<close> and \<open>olderAvg\<close> are the arithmetic
  means of the two halves, and the result is
  \<open>round(((recentAvg - olderAvg) / olderAvg) * 100)\<close>, the expression being evaluated in
  binary64 arithmetic.
\<close>

definition improvementRate_spec :: "SessionHistoryItem list \<Rightarrow> jsnum" where
  "improvementRate_spec history =
     (let n = length history;
          recentAvg = f64 (arithmetic_mean (map score (take (n div 2) history)));
          olderAvg = f64 (arithmetic_mean (map score (drop (n div 2) history)))
      in js_round (f64 (js_mul (f64 (js_div (f64 (js_sub recentAvg olderAvg)) olderAvg))
                          (num 100))))"

text \<open>
  The win rate as the specification words it: \<open>round(n * 0.7 * 100) / 100\<close>, the
  expression being evaluated in binary64 arithmetic.
\<close>

definition winRate_spec :: "int \<Rightarrow> jsnum" where
  "winRate_spec n =
     f64 (js_div (js_round (f64 (js_mul (f64 (js_mul (num n) lit_0_7)) (num 100)))) (num 100))"

text \<open>
  A recent average as the specification words it: over the first \<open>recentWindow\<close> entries,
  the rounded quotient of the sum of the sub-score (0 where it is absent) by the number of
  entries in the window, and 0 for the empty window.
\<close>

definition recentAverage_spec ::
  "(SessionHistoryItem \<Rightarrow> int option) \<Rightarrow> nat \<Rightarrow> SessionHistoryItem list \<Rightarrow> jsnum" where
  "recentAverage_spec subscore recentWindow history =
     (let window = take recentWindow history
      in if window = [] then num 0
         else js_round (js_div
                (num (sum_list (map (\<lambda>s. case subscore s of None \<Rightarrow> 0 | Some v \<Rightarrow> v) window)))
                (num (int (length window)))))"



section \<open>Strings\<close>

text \<open>
  A string is a list of 8-bit characters. \<open>toLowerCase\<close> maps the letters A to Z to a to
  z and leaves every other character as it is; \<open>includes\<close> looks for a contiguous
  occurrence.
\<close>

definition lower_char :: "char \<Rightarrow> char" where
  "lower_char c =
     (case map_of (zip ''ABCDEFGHIJKLMNOPQRSTUVWXYZ'' ''abcdefghijklmnopqrstuvwxyz'') c of
        None \<Rightarrow> c
      | Some d \<Rightarrow> d)"

definition toLowerCase :: "string \<Rightarrow> string" where
  "toLowerCase s = map lower_char s"

fun str_includes :: "string \<Rightarrow> string \<Rightarrow> bool" where
  "str_includes [] sub = (sub = [])"
| "str_includes (c # cs) sub = (prefix sub (c # cs) \<or> str_includes cs sub)"

section \<open>The error fallback's message (PersonaErrorBoundary.tsx)\<close>

datatype Error = Error (message: string)

record ErrorText =
  title :: string
  description :: string

text \<open>\<open>getErrorMessage\<close>, with the \<open>error\<close> it closes over (\<open>Error | null\<close>) as its argument.\<close>

definition getErrorMessage :: "Error option \<Rightarrow> ErrorText" where
  "getErrorMessage error =
     (case error of
        None \<Rightarrow>
          \<lparr>title = ''Something went wrong'',
           description = ''An unexpected error occurred while loading your persona.''\<rparr>
      | Some e \<Rightarrow>
          let errorMessage = toLowerCase (message e) in
          if str_includes errorMessage ''spline'' \<or> str_includes errorMessage ''3d''
             \<or> str_includes errorMessage ''scene''
          then \<lparr>title = ''3D Scene Loading Error'',
                description = ''Unable to load the 3D visualization. The persona data is still available below.''\<rparr>
          else if str_includes errorMessage ''calculate'' \<or> str_includes errorMessage ''persona''
          then \<lparr>title = ''Persona Calculation Error'',
                description = ''Unable to calculate your persona from session data. Please try again or check your session history.''\<rparr>
          else if str_includes errorMessage ''data'' \<or> str_includes errorMessage ''invalid''
          then \<lparr>title = ''Data Error'',
                description = ''There was a problem with your session data. Please try refreshing or contact support.''\<rparr>
          else \<lparr>title = ''Unexpected Error'',
                description = (if message e \<noteq> [] then message e
                               else ''An unexpected error occurred. Please try again.'')\<rparr>)"

subsection \<open>The specification's words\<close>

datatype category = Scene3D | Calculation | DataProblem | Generic

text \<open>
  A case-insensitive substring match: with the case of the letters ignored, the keyword is
  a contiguous part of the message.
\<close>

definition matches :: "string \<Rightarrow> string \<Rightarrow> bool" where
  "matches msg keyword = sublist (toLowerCase keyword) (toLowerCase msg)"

definition categorize :: "string \<Rightarrow> category" where
  "categorize msg =
     (if matches msg ''spline'' \<or> matches msg ''3d'' \<or> matches msg ''scene'' then Scene3D
      else if matches msg ''calculate'' \<or> matches msg ''persona'' then Calculation
      else if matches msg ''data'' \<or> matches msg ''invalid'' then DataProblem
      else Generic)"

text \<open>The title the fallback shows for each category.\<close>

fun category_title :: "category \<Rightarrow> string" where
  "category_title Scene3D = ''3D Scene Loading Error''"
| "category_title Calculation = ''Persona Calculation Error''"
| "category_title DataProblem = ''Data Error''"
| "category_title Generic = ''Unexpected Error''"

section \<open>The archetype card (ArchetypeCard)\<close>

datatype IconComponent = Brain | Heart | Scale | Sword | Lightbulb | Book | Star | Target | Lock

text \<open>
  What reading a property of the \<open>icons\<close> object can give: one of the icon components,
  a member that the object inherits, or \<open>undefined\<close>.
\<close>

datatype jsvalue = Component IconComponent | Inherited string | Undefined

text \<open>The own properties of \<open>icons\<close>, in the order of the object literal.\<close>

definition icons :: "(string \<times> IconComponent) list" where
  "icons =
     [(''brain'', Brain), (''heart'', Heart), (''scale'', Scale), (''sword'', Sword),
      (''lightbulb'', Lightbulb), (''book'', Book), (''star'', Star), (''target'', Target)]"

text \<open>
  \<open>icons\<close> is an object literal, so its prototype is \<open>Object.prototype\<close>, whose
  members (functions, and the accessor \<open>__proto__\<close>) are found by a property read as
  well.
\<close>

definition Object_prototype :: "string list" where
  "Object_prototype =
     [''constructor'', ''__defineGetter__'', ''__defineSetter__'', ''hasOwnProperty'',
      ''__lookupGetter__'', ''__lookupSetter__'', ''isPrototypeOf'', ''propertyIsEnumerable'',
      ''toString'', ''valueOf'', ''__proto__'', ''toLocaleString'']"

text \<open>The property read \<open>obj[key]\<close>: an own property first, then the prototype's.\<close>

definition property :: "(string \<times> IconComponent) list \<Rightarrow> string \<Rightarrow> jsvalue" where
  "property obj key =
     (case map_of obj key of
        Some c \<Rightarrow> Component c
      | None \<Rightarrow> if List.member Object_prototype key then Inherited key else Undefined)"

fun truthy :: "jsvalue \<Rightarrow> bool" where
  "truthy Undefined = False"
| "truthy (Component _) = True"
| "truthy (Inherited _) = True"

definition getArchetypeIcon :: "string \<Rightarrow> jsvalue" where
  "getArchetypeIcon iconName =
     (let found = property icons (toLowerCase iconName)
      in if truthy found then found else Component Brain)"

text \<open>
  Modelled from the spec: the declaration of \<open>PersonaArchetype\<close> lives in the types
  module, which is not among the sources. The fields are the ones the card reads;
  \<open>isLocked\<close> and \<open>unlockRequirements\<close> are optional, \<open>None\<close> standing for undefined or
  null, and a requirement is kept as its description.
\<close>

record PersonaArchetype =
  name :: string
  icon :: string
  color :: string
  archetype_description :: string
  isLocked :: "bool option"
  unlockRequirements :: "string list option"

datatype card_body = Requirements "string list" | Description string

text \<open>
  What the card renders, as far as it depends on the lock: the button's props, the icon,
  the text under the name and the lock overlay. A click handler is a transformer of the
  caller's state.
\<close>

record 's Button =
  button_onClick :: "('s \<Rightarrow> 's) option"
  button_disabled :: bool
  aria_label :: string
  aria_pressed :: bool
  aria_disabled :: bool
  button_icon :: jsvalue
  button_body :: card_body
  lockOverlay :: bool

definition ArchetypeCardComponent ::
  "PersonaArchetype \<Rightarrow> bool \<Rightarrow> ('s \<Rightarrow> 's) option \<Rightarrow> 's Button" where
  "ArchetypeCardComponent archetype isActive onClick =
     (let locked = (case isLocked archetype of None \<Rightarrow> False | Some b \<Rightarrow> b)
      in \<lparr>button_onClick = (if locked then None else onClick),
          button_disabled = locked,
          aria_label = (if locked then name archetype @ '' archetype (locked)''
                        else ''Select '' @ name archetype @ '' archetype''),
          aria_pressed = isActive,
          aria_disabled = locked,
          button_icon = getArchetypeIcon (icon archetype),
          button_body = (if locked
                         then Requirements (case unlockRequirements archetype of
                                None \<Rightarrow> [] | Some reqs \<Rightarrow> reqs)
                         else Description (archetype_description archetype)),
          lockOverlay = locked\<rparr>)"

text \<open>
  A click on the rendered button: a disabled button dispatches no click, and otherwise the
  attached handler, if there is one, runs.
\<close>

definition click :: "'s Button \<Rightarrow> 's \<Rightarrow> 's" where
  "click b s =
     (if button_disabled b then s
      else case button_onClick b of None \<Rightarrow> s | Some handler \<Rightarrow> handler s)"

section \<open>Facts about the array operations\<close>

lemma reduce_sum: "reduce (\<lambda>sum s. sum + g s) a xs = (a::int) + sum_list (map g xs)"
  by (induction xs arbitrary: a) (simp_all add: add.assoc)

lemma slice_0: "0 \<le> n \<Longrightarrow> slice 0 n xs = take (nat n) xs"
  by (auto simp: slice_def Let_def min_def)

lemma slice_from_eq: "0 \<le> n \<Longrightarrow> slice_from n xs = drop (nat n) xs"
  by (auto simp: slice_from_def slice_def Let_def min_def)

lemma halfPoint: "\<lfloor>rat_of_nat n / 2\<rfloor> = int (n div 2)"
  using floor_divide_of_nat_eq [of n 2, where ?'a = rat] by simp

lemma recentSessions_take: "recentSessions history = take 10 history"
  by (simp add: recentSessions_def slice_0)

lemma or_zero_absent: "or_zero v = (case v of None \<Rightarrow> 0 | Some n \<Rightarrow> n)"
  by (simp add: or_zero_def split: option.splits)

lemma floor_half: "\<lfloor>rat_of_int k + 1 / 2\<rfloor> = k"
  by (simp add: floor_eq_iff)


section \<open>Facts about the rounding to binary64\<close>

lemma bitlen_powi:
  assumes "0 < p"
  shows "(2::rat) powi (bitlen p - 1) \<le> of_int p" and "of_int p < (2::rat) powi (bitlen p)"
proof -
  have b: "1 \<le> bitlen p"
    using assms bitlen_eq_zero_iff [of p] bitlen_nonneg [of p] by linarith
  have "(2::int) ^ nat (bitlen p - 1) \<le> p" and "p < 2 ^ nat (bitlen p)"
    using bitlen_bounds [OF assms] by simp_all
  then have "rat_of_int (2 ^ nat (bitlen p - 1)) \<le> of_int p"
    and "rat_of_int p < of_int (2 ^ nat (bitlen p))"
    by (simp_all only: of_int_le_iff of_int_less_iff)
  then show "(2::rat) powi (bitlen p - 1) \<le> of_int p" and "of_int p < (2::rat) powi (bitlen p)"
    using b by (simp_all add: power_int_nonneg_exp)
qed

lemma powi_less_exp:
  assumes "(2::rat) powi a < 2 powi b"
  shows "a < b"
proof (rule ccontr)
  assume "\<not> a < b"
  then have "b \<le> a" by simp
  then have "(2::rat) powi b \<le> 2 powi a"
    by (rule power_int_increasing) simp
  with assms show False by simp
qed

lemma expo_bounds:
  assumes "0 < x"
  shows "2 powi (expo x) \<le> x" and "x < 2 powi (expo x + 1)"
proof -
  obtain p q where pq: "quotient_of x = (p, q)"
    by (cases "quotient_of x")
  then have q: "0 < q" and x: "x = of_int p / of_int q"
    by (simp_all add: quotient_of_denom_pos quotient_of_div)
  have p: "0 < p"
    using assms q x by (simp add: zero_less_divide_iff)
  let ?e = "bitlen p - bitlen q"
  have up: "x < 2 powi (?e + 1)"
  proof -
    have "of_int p < (2::rat) powi (bitlen p)" "(2::rat) powi (bitlen q - 1) \<le> of_int q"
      using bitlen_powi p q by simp_all
    then have "of_int p * (2::rat) powi (bitlen q - 1) < 2 powi (bitlen p) * of_int q"
      using p q by (intro mult_less_le_imp_less) simp_all
    then have "x * (2::rat) powi (bitlen q - 1) < 2 powi (bitlen p)"
      using q by (simp add: x field_simps)
    then have "x < 2 powi (bitlen p) / 2 powi (bitlen q - 1)"
      by (simp add: field_simps)
    also have "\<dots> = 2 powi (?e + 1)"
      by (simp add: power_int_diff [symmetric] algebra_simps)
    finally show ?thesis .
  qed
  have lo: "2 powi (?e - 1) \<le> x"
  proof -
    have "(2::rat) powi (bitlen p - 1) \<le> of_int p" "of_int q < (2::rat) powi (bitlen q)"
      using bitlen_powi p q by simp_all
    then have "(2::rat) powi (bitlen p - 1) * of_int q \<le> of_int p * 2 powi (bitlen q)"
      using p q by (intro mult_mono) simp_all
    then have "(2::rat) powi (bitlen p - 1) \<le> x * 2 powi (bitlen q)"
      using q by (simp add: x field_simps)
    then have "(2::rat) powi (bitlen p - 1) / 2 powi (bitlen q) \<le> x"
      by (simp add: field_simps)
    moreover have "(2::rat) powi (bitlen p - 1) / 2 powi (bitlen q) = 2 powi (?e - 1)"
      by (simp add: power_int_diff [symmetric] algebra_simps)
    ultimately show ?thesis by simp
  qed
  show "2 powi (expo x) \<le> x" and "x < 2 powi (expo x + 1)"
    using up lo by (simp_all add: expo_def pq Let_def not_le)
qed

lemma expo_unique:
  assumes "2 powi e \<le> x" and "x < 2 powi (e + 1)"
  shows "expo x = e"
proof -
  have pos: "0 < x"
    using assms(1) zero_less_power_int [of "2::rat" e] by linarith
  have "(2::rat) powi e < 2 powi (expo x + 1)"
    using assms(1) expo_bounds(2) [OF pos] by linarith
  then have a: "e < expo x + 1"
    by (rule powi_less_exp)
  have "(2::rat) powi (expo x) < 2 powi (e + 1)"
    using assms(2) expo_bounds(1) [OF pos] by linarith
  then have "expo x < e + 1"
    by (rule powi_less_exp)
  with a show ?thesis by linarith
qed

lemma expo_mono:
  assumes "0 < x" and "x \<le> y"
  shows "expo x \<le> expo y"
proof -
  have "(2::rat) powi (expo x) < 2 powi (expo y + 1)"
    using expo_bounds(1) [OF assms(1)] expo_bounds(2) [of y] assms by linarith
  then have "expo x < expo y + 1"
    by (rule powi_less_exp)
  then show ?thesis by linarith
qed


lemma rne_floor: "\<lfloor>r\<rfloor> \<le> rne r" and rne_ceil: "rne r \<le> \<lfloor>r\<rfloor> + 1"
  by (simp_all add: rne_def Let_def)

lemma rne_of_int [simp]: "rne (of_int k) = k"
  by (simp add: rne_def)

lemma rne_error: "\<bar>of_int (rne r) - r\<bar> \<le> 1 / 2"
proof -
  define f where "f = \<lfloor>r\<rfloor>"
  have "of_int f \<le> r" "r < of_int f + 1"
    unfolding f_def by linarith+
  then show ?thesis
    unfolding rne_def Let_def f_def [symmetric] by (auto simp: abs_if)
qed

lemma rne_mono:
  assumes "r \<le> s"
  shows "rne r \<le> rne s"
proof (cases "\<lfloor>r\<rfloor> = \<lfloor>s\<rfloor>")
  case True
  then show ?thesis
    using assms by (auto simp: rne_def Let_def)
next
  case False
  then have "\<lfloor>r\<rfloor> + 1 \<le> \<lfloor>s\<rfloor>"
    using floor_mono [OF assms] by linarith
  then show ?thesis
    using rne_ceil [of r] rne_floor [of s] by linarith
qed

lemma rne_lower: "of_int n \<le> r \<Longrightarrow> n \<le> rne r"
  using rne_mono [of "of_int n" r] by simp

lemma rne_upper: "r \<le> of_int n \<Longrightarrow> rne r \<le> n"
  using rne_mono [of r "of_int n"] by simp


lemma f64r_zero [simp]: "f64r 0 = Fin 0"
  by (simp add: f64r_def)

text \<open>In the normal range and below the overflow threshold.\<close>

lemma powi_split:
  "(2::rat) powi (e - 52) * 2 ^ 52 = 2 powi e" "(2::rat) powi (e - 52) * 2 ^ 53 = 2 powi (e + 1)"
proof -
  have "(2::rat) powi ((e - 52) + 52) = 2 powi (e - 52) * 2 powi 52"
    by (rule power_int_add) simp
  then show "(2::rat) powi (e - 52) * 2 ^ 52 = 2 powi e"
    by simp
  have "(2::rat) powi ((e - 52) + 53) = 2 powi (e - 52) * 2 powi 53"
    by (rule power_int_add) simp
  then show "(2::rat) powi (e - 52) * 2 ^ 53 = 2 powi (e + 1)"
    by (simp add: add.commute)
qed

lemma grid_error:
  fixes q x :: rat
  assumes "0 < q"
  shows "\<bar>of_int (rne (x / q)) * q - x\<bar> \<le> q / 2"
proof -
  have "\<bar>of_int (rne (x / q)) - x / q\<bar> \<le> 1 / 2"
    by (rule rne_error)
  then have "\<bar>of_int (rne (x / q)) - x / q\<bar> * \<bar>q\<bar> \<le> 1 / 2 * q"
    using assms by (simp add: mult_right_mono)
  then have "\<bar>(of_int (rne (x / q)) - x / q) * q\<bar> \<le> q / 2"
    by (simp only: abs_mult)
  moreover have "(of_int (rne (x / q)) - x / q) * q = of_int (rne (x / q)) * q - x"
    using assms by (simp add: left_diff_distrib)
  ultimately show ?thesis by simp
qed

lemma grid_bounds:
  fixes q x :: rat
  assumes "0 < q"
  shows "of_int n * q \<le> x \<Longrightarrow> of_int n * q \<le> of_int (rne (x / q)) * q"
    and "x \<le> of_int n * q \<Longrightarrow> of_int (rne (x / q)) * q \<le> of_int n * q"
proof -
  assume "of_int n * q \<le> x"
  then have "of_int n \<le> x / q"
    using assms by (simp add: pos_le_divide_eq)
  then have "n \<le> rne (x / q)" by (rule rne_lower)
  then have "rat_of_int n \<le> of_int (rne (x / q))" by (simp only: of_int_le_iff)
  then show "of_int n * q \<le> of_int (rne (x / q)) * q"
    using assms by (simp add: mult_right_mono)
next
  assume "x \<le> of_int n * q"
  then have "x / q \<le> of_int n"
    using assms by (simp add: pos_divide_le_eq)
  then have "rne (x / q) \<le> n" by (rule rne_upper)
  then have "of_int (rne (x / q)) \<le> rat_of_int n" by (simp only: of_int_le_iff)
  then show "of_int (rne (x / q)) * q \<le> of_int n * q"
    using assms by (simp add: mult_right_mono)
qed



lemma quantum_pos [simp]: "0 < quantum x"
  by (simp add: quantum_def)

lemma quantum_nonneg [simp]: "0 \<le> quantum x"
  by (simp add: quantum_def)

lemma quantum_split:
  "of_int (2 ^ 52) * quantum x = 2 powi (cexp x)" "of_int (2 ^ 53) * quantum x = 2 powi (cexp x + 1)"
  using powi_split [of "cexp x"] by (simp_all add: quantum_def mult.commute)

lemma cexp_normal:
  assumes "2 powi e \<le> x" and "x < 2 powi (e + 1)" and "- 1022 \<le> e"
  shows "cexp x = e"
proof -
  have pos: "0 < x"
    using assms(1) zero_less_power_int [of "2::rat" e] by linarith
  have "expo \<bar>x\<bar> = e"
    using assms(1,2) pos by (simp add: expo_unique)
  then show ?thesis
    using assms(3) by (simp add: cexp_def)
qed

lemma f64r_normal:
  assumes "2 powi e \<le> x" and "x < 2 powi (e + 1)" and "- 1022 \<le> e" and "e < 1023"
  shows "f64r x = Fin (of_int (rne (x / 2 powi (e - 52))) * 2 powi (e - 52))"
proof -
  have pos: "0 < x"
    using assms(1) zero_less_power_int [of "2::rat" e] by linarith
  have c: "cexp x = e"
    using assms(1-3) by (rule cexp_normal)
  then have "\<not> overflows x"
    using assms(4) by (simp add: overflows_def)
  then show ?thesis
    using pos c by (simp add: f64r_def mant_def quantum_def)
qed

lemma f64r_error:
  assumes "2 powi e \<le> x" and "x < 2 powi (e + 1)" and "- 1022 \<le> e" and "e < 1023"
  obtains y where "f64r x = Fin y" and "\<bar>y - x\<bar> \<le> x / 2 ^ 53"
    and "2 powi e \<le> y" and "y \<le> 2 powi (e + 1)"
proof -
  define q where "q = (2::rat) powi (e - 52)"
  define y where "y = of_int (rne (x / q)) * q"
  have q: "0 < q" by (simp add: q_def)
  have qe: "of_int (2 ^ 52) * q = 2 powi e" and qe1: "of_int (2 ^ 53) * q = 2 powi (e + 1)"
    using powi_split [of e] by (simp_all add: q_def mult.commute)
  have fy: "f64r x = Fin y"
    unfolding y_def q_def using assms by (rule f64r_normal)
  have "\<bar>y - x\<bar> \<le> q / 2"
    unfolding y_def using q by (rule grid_error)
  moreover have "q / 2 = 2 powi e / 2 ^ 53"
    using qe by (simp add: field_simps)
  moreover have "2 powi e / 2 ^ 53 \<le> x / 2 ^ 53"
    using assms(1) by (simp add: divide_right_mono)
  ultimately have err: "\<bar>y - x\<bar> \<le> x / 2 ^ 53" by linarith
  have "of_int (2 ^ 52) * q \<le> y"
    unfolding y_def using q qe assms(1) by (intro grid_bounds(1)) simp_all
  then have lo: "2 powi e \<le> y"
    using qe by simp
  have "y \<le> of_int (2 ^ 53) * q"
    unfolding y_def using q qe1 assms(2) by (intro grid_bounds(2)) simp_all
  then have hi: "y \<le> 2 powi (e + 1)"
    using qe1 by simp
  from fy err lo hi show ?thesis by (rule that)
qed

lemma mant_pos:
  assumes "0 < x"
  shows "0 \<le> mant x"
    and "of_int (mant x) * quantum x \<le> 2 powi (cexp x + 1)"
    and "- 1022 < cexp x \<Longrightarrow> 2 powi (cexp x) \<le> of_int (mant x) * quantum x"
proof -
  have ec: "expo x \<le> cexp x"
    using assms by (simp add: cexp_def)
  have "x < 2 powi (expo x + 1)"
    using assms by (rule expo_bounds)
  also have "\<dots> \<le> 2 powi (cexp x + 1)"
    using ec by (intro power_int_increasing) simp_all
  finally have xu: "x < 2 powi (cexp x + 1)" .
  have "of_int 0 * quantum x \<le> of_int (mant x) * quantum x"
    unfolding mant_def using assms by (intro grid_bounds(1)) simp_all
  then have "rat_of_int 0 \<le> of_int (mant x)"
    by (simp only: mult_le_cancel_right_pos [OF quantum_pos])
  then show "0 \<le> mant x"
    by simp
  have "of_int (mant x) * quantum x \<le> of_int (2 ^ 53) * quantum x"
    unfolding mant_def using xu by (intro grid_bounds(2)) (simp_all only: quantum_pos quantum_split)
  then show "of_int (mant x) * quantum x \<le> 2 powi (cexp x + 1)"
    by (simp only: quantum_split)
  show "2 powi (cexp x) \<le> of_int (mant x) * quantum x" if "- 1022 < cexp x"
  proof -
    have "expo x = cexp x"
      using that assms by (simp add: cexp_def max_def split: if_splits)
    then have "2 powi (cexp x) \<le> x"
      using expo_bounds(1) [OF assms] by simp
    then have "of_int (2 ^ 52) * quantum x \<le> of_int (mant x) * quantum x"
      unfolding mant_def by (intro grid_bounds(1)) (simp_all only: quantum_pos quantum_split)
    then show ?thesis
      by (simp only: quantum_split)
  qed
qed

lemma f64r_pos:
  assumes "0 < x"
  shows "f64r x = (if overflows x then PosInf else Fin (of_int (mant x) * quantum x))"
  using assms by (simp add: f64r_def)

lemma f64r_nonneg:
  assumes "0 < x"
  shows "js_le (Fin 0) (f64r x)"
proof -
  have "0 \<le> of_int (mant x) * quantum x"
    using mant_pos(1) [OF assms] quantum_pos [of x] by (intro mult_nonneg_nonneg) simp_all
  then show ?thesis
    by (cases "overflows x") (auto simp add: f64r_pos [OF assms])
qed

lemma cexp_mono:
  assumes "0 < x" and "x \<le> y"
  shows "cexp x \<le> cexp y"
  using expo_mono [OF assms] assms by (simp add: cexp_def max_def)

lemma f64r_mono:
  assumes "0 \<le> x" and "x \<le> y"
  shows "js_le (f64r x) (f64r y)"
proof (cases "x = 0")
  case True
  show ?thesis
  proof (cases "y = 0")
    case True
    with \<open>x = 0\<close> show ?thesis by simp
  next
    case False
    then have "0 < y" using assms True by simp
    then show ?thesis
      using f64r_nonneg [of y] True by simp
  qed
next
  case False
  then have x: "0 < x" using assms by simp
  then have y: "0 < y" using assms by simp
  have c: "cexp x \<le> cexp y"
    using x assms(2) by (rule cexp_mono)
  show ?thesis
  proof (cases "cexp x = cexp y")
    case True
    then have q: "quantum x = quantum y"
      by (simp add: quantum_def)
    have "x / quantum y \<le> y / quantum y"
      using assms(2) quantum_pos [of y] by (intro divide_right_mono) simp_all
    then have m: "mant x \<le> mant y"
      unfolding mant_def q by (rule rne_mono)
    then have v: "of_int (mant x) * quantum x \<le> of_int (mant y) * quantum y"
      unfolding q using quantum_pos [of y] by (intro mult_right_mono) simp_all
    have o: "overflows y" if "overflows x"
      using that m mant_pos(1) [OF x] mant_pos(1) [OF y] unfolding overflows_def True by linarith
    show ?thesis
      using v o by (cases "overflows x"; cases "overflows y") (auto simp add: f64r_pos x y)
  next
    case False
    then have lt: "cexp x < cexp y" using c by simp
    have "- 1022 \<le> cexp x" by (simp add: cexp_def)
    then have n: "- 1022 < cexp y" using lt by simp
    have "of_int (mant x) * quantum x \<le> 2 powi (cexp x + 1)"
      using x by (rule mant_pos(2))
    also have "\<dots> \<le> 2 powi (cexp y)"
      using lt by (intro power_int_increasing) simp_all
    also have "\<dots> \<le> of_int (mant y) * quantum y"
      using y n by (rule mant_pos(3))
    finally have v: "of_int (mant x) * quantum x \<le> of_int (mant y) * quantum y" .
    have o: "overflows y" if "overflows x"
      using that lt unfolding overflows_def by linarith
    show ?thesis
      using v o by (cases "overflows x"; cases "overflows y") (auto simp add: f64r_pos x y)
  qed
qed


text \<open>
  The overflow test of the definition is the comparison of the rounded magnitude with
  \<open>2\<^sup>1\<^sup>0\<^sup>2\<^sup>4\<close>.
\<close>

lemma overflows_iff:
  assumes "0 < x"
  shows "overflows x \<longleftrightarrow> 2 powi 1024 \<le> of_int (mant x) * quantum x"
proof (cases "cexp x < 1023")
  case True
  have "of_int (mant x) * quantum x \<le> 2 powi (cexp x + 1)"
    using assms by (rule mant_pos(2))
  also have "\<dots> \<le> 2 powi 1023"
    using True by (intro power_int_increasing) simp_all
  also have "\<dots> < (2::rat) powi 1024"
    by (intro power_int_strict_increasing) simp_all
  finally have "\<not> 2 powi 1024 \<le> of_int (mant x) * quantum x"
    by simp
  then show ?thesis
    using True by (simp add: overflows_def)
next
  case False
  show ?thesis
  proof (cases "cexp x = 1023")
    case True
    have q: "of_int (2 ^ 53) * quantum x = 2 powi 1024"
      using quantum_split(2) [of x] True by simp
    have m: "0 \<le> mant x"
      using assms by (rule mant_pos(1))
    have "2 powi 1024 \<le> of_int (mant x) * quantum x \<longleftrightarrow>
        rat_of_int (2 ^ 53) * quantum x \<le> of_int (mant x) * quantum x"
      by (simp only: q)
    also have "\<dots> \<longleftrightarrow> rat_of_int (2 ^ 53) \<le> of_int (mant x)"
      by (simp only: mult_le_cancel_right_pos [OF quantum_pos])
    also have "\<dots> \<longleftrightarrow> 2 ^ 53 \<le> mant x"
      by (simp only: of_int_le_iff)
    finally show ?thesis
      using True m by (simp add: overflows_def)
  next
    case f: False
    then have c: "1023 < cexp x" using False by simp
    have "(2::rat) powi 1024 \<le> 2 powi (cexp x)"
      using c by (intro power_int_increasing) simp_all
    also have "\<dots> \<le> of_int (mant x) * quantum x"
      using assms c by (intro mant_pos(3)) simp_all
    finally show ?thesis
      using c by (simp add: overflows_def)
  qed
qed

lemma f64r_error_range:
  assumes "2 powi a \<le> x" and "x < 2 powi b" and "- 1022 \<le> a" and "b \<le> 1023"
  obtains y where "f64r x = Fin y" and "\<bar>y - x\<bar> \<le> x / 2 ^ 53" and "0 < y"
proof -
  have pos: "0 < x"
    using assms(1) zero_less_power_int [of "2::rat" a] by linarith
  have lo: "2 powi (expo x) \<le> x" and hi: "x < 2 powi (expo x + 1)"
    using expo_bounds [OF pos] by simp_all
  have "(2::rat) powi a < 2 powi (expo x + 1)"
    using assms(1) hi by linarith
  then have "a < expo x + 1" by (rule powi_less_exp)
  then have e1: "- 1022 \<le> expo x" using assms(3) by linarith
  have "(2::rat) powi (expo x) < 2 powi b"
    using assms(2) lo by linarith
  then have "expo x < b" by (rule powi_less_exp)
  then have e2: "expo x < 1023" using assms(4) by linarith
  obtain y where y: "f64r x = Fin y" "\<bar>y - x\<bar> \<le> x / 2 ^ 53" "2 powi (expo x) \<le> y"
    using f64r_error [OF lo hi e1 e2] by blast
  have "0 < y"
    using y(3) zero_less_power_int [of "2::rat" "expo x"] by linarith
  with y(1,2) show ?thesis by (rule that)
qed

text \<open>A multiple of the quantum is a binary64 number: rounding leaves it as it is.\<close>

lemma f64r_exact:
  assumes "2 powi e \<le> x" and "x < 2 powi (e + 1)" and "- 1022 \<le> e" and "e < 1023"
    and "x = of_int k * 2 powi (e - 52)"
  shows "f64r x = Fin x"
proof -
  have "x / 2 powi (e - 52) = of_int k"
    using assms(5) by simp
  then show ?thesis
    using f64r_normal [OF assms(1-4)] assms(5) by simp
qed


lemma f64r_half_integer:
  assumes "2 powi (- 52) \<le> x" and "x < 2 powi 52" and "x = of_int j / 2"
  shows "f64r x = Fin x"
proof -
  have pos: "0 < x"
    using assms(1) zero_less_power_int [of "2::rat" "- 52"] by linarith
  define e where "e = expo x"
  have lo: "2 powi e \<le> x" and hi: "x < 2 powi (e + 1)"
    unfolding e_def using expo_bounds [OF pos] by simp_all
  have "(2::rat) powi (- 52) < 2 powi (e + 1)"
    using assms(1) hi by linarith
  then have "- 52 < e + 1" by (rule powi_less_exp)
  then have e1: "- 1022 \<le> e" by linarith
  have "(2::rat) powi e < 2 powi 52"
    using assms(2) lo by linarith
  then have e2: "e < 52" by (rule powi_less_exp)
  then have e3: "e < 1023" by linarith
  define P :: rat where "P = 2 powi (51 - e)"
  define Q :: rat where "Q = 2 powi (e - 52)"
  have "(2::rat) powi ((51 - e) + (e - 52)) = 2 powi (51 - e) * 2 powi (e - 52)"
    by (rule power_int_add) simp
  then have pq: "P * Q = 1 / 2"
    by (simp add: power_int_minus P_def Q_def)
  have p: "P = of_int (2 ^ nat (51 - e))"
    using e2 by (simp add: power_int_nonneg_exp P_def)
  have "x = of_int j * (P * Q)"
    using assms(3) by (simp add: pq)
  also have "\<dots> = (of_int j * P) * Q"
    by (simp only: mult.assoc)
  also have "of_int j * P = of_int (j * 2 ^ nat (51 - e))"
    unfolding p by (simp only: of_int_mult)
  finally have "x = of_int (j * 2 ^ nat (51 - e)) * 2 powi (e - 52)"
    unfolding Q_def .
  with lo hi e1 e3 show ?thesis
    by (rule f64r_exact)
qed


text \<open>
  The quotient of an integer below \<open>2\<^sup>5\<^sup>2\<close> by a length: rounding it to binary64 first does
  not change what \<open>Math.round\<close> returns.
\<close>

lemma round_quotient_binary64:
  assumes "0 \<le> a" and "a < 2 ^ 52" and "0 < b" and "b \<le> 2 ^ 52"
  shows "js_round (f64 (js_div (num a) (num b))) = js_round (js_div (num a) (num b))"
proof (cases "a = 0")
  case True
  then show ?thesis
    using assms(3) by (simp add: num_def)
next
  case False
  define A B :: rat where "A = of_int a" and "B = of_int b"
  define x where "x = A / B"
  define k where "k = \<lfloor>x + 1 / 2\<rfloor>"
  define P :: rat where "P = of_int (k * b)"
  have "1 \<le> a" using False assms(1) by simp
  then have "rat_of_int 1 \<le> of_int a" by (simp only: of_int_le_iff)
  then have A1: "1 \<le> A" by (simp add: A_def)
  have "rat_of_int a < of_int (2 ^ 52)" using assms(2) by (simp only: of_int_less_iff)
  then have A2: "A < 4503599627370496" by (simp add: A_def)
  have "1 \<le> b" using assms(3) by simp
  then have "rat_of_int 1 \<le> of_int b" by (simp only: of_int_le_iff)
  then have B1: "1 \<le> B" by (simp add: B_def)
  have "rat_of_int b \<le> of_int (2 ^ 52)" using assms(4) by (simp only: of_int_le_iff)
  then have B2: "B \<le> 4503599627370496" by (simp add: B_def)
  have B0: "0 < B" using B1 by simp
  have xB: "x * B = A" using B0 by (simp add: x_def)
  have xlo: "2 powi (- 52) \<le> x"
  proof -
    have "B \<le> A * 4503599627370496" using A1 B2 by linarith
    then show ?thesis using B0 by (simp add: x_def power_int_minus field_simps)
  qed
  have xhi: "x < 2 powi 52"
  proof -
    have "A < 4503599627370496 * B" using A2 B1 by linarith
    then show ?thesis using B0 by (simp add: x_def field_simps)
  qed
  obtain y where y: "f64r x = Fin y" "\<bar>y - x\<bar> \<le> x / 2 ^ 53"
    using f64r_error_range [OF xlo xhi] by auto
  define Y where "Y = y * B"
  have "\<bar>y - x\<bar> * B \<le> x / 2 ^ 53 * B"
    using y(2) B0 by (intro mult_right_mono) simp_all
  then have "\<bar>(y - x) * B\<bar> \<le> x * B / 2 ^ 53"
    using B0 by (simp add: abs_mult)
  moreover have "(y - x) * B = Y - A"
    by (simp add: left_diff_distrib xB Y_def)
  ultimately have "\<bar>Y - A\<bar> \<le> A / 9007199254740992"
    by (simp add: xB)
  then have Yb: "A - A / 9007199254740992 \<le> Y" "Y \<le> A + A / 9007199254740992"
    by linarith+
  have kx: "of_int k \<le> x + 1 / 2" "x + 1 / 2 < of_int k + 1"
    unfolding k_def by linarith+
  have "of_int k * B \<le> (x + 1 / 2) * B" "(x + 1 / 2) * B < (of_int k + 1) * B"
    using kx B0 by (simp_all add: mult_right_mono)
  then have PB: "P \<le> A + B / 2" "A + B / 2 < P + B"
    by (simp_all add: P_def B_def [symmetric] distrib_right xB)
  have "rat_of_int (2 * a + b) < of_int (2 * (k * b) + 2 * b)"
    using PB(2) by (simp add: P_def A_def B_def)
  then have "2 * a + b + 1 \<le> 2 * (k * b) + 2 * b"
    by (simp only: of_int_less_iff)
  then have "rat_of_int (2 * a + b + 1) \<le> of_int (2 * (k * b) + 2 * b)"
    by (simp only: of_int_le_iff)
  then have up: "2 * A + B + 1 \<le> 2 * P + 2 * B"
    by (simp add: P_def A_def B_def)
  have hi: "Y + B / 2 < P + B"
    using up Yb(2) A2 by linarith
  have lo: "P \<le> Y + B / 2"
  proof (cases "2 * (k * b) = 2 * a + b")
    case True
    then have "rat_of_int (2 * (k * b)) = of_int (2 * a + b)" by simp
    then have t: "2 * P = 2 * A + B" by (simp add: P_def A_def B_def)
    have PK: "P = of_int k * B"
      by (simp add: P_def B_def)
    have "(of_int (2 * k - 1) / 2) * B = (2 * (of_int k * B) - B) / 2"
      by (simp add: algebra_simps)
    also have "\<dots> = (2 * P - B) / 2"
      by (simp only: PK)
    also have "\<dots> = A"
      using t by simp
    finally have "x * B = (of_int (2 * k - 1) / 2) * B"
      by (simp only: xB)
    then have "x = of_int (2 * k - 1) / 2"
      using B0 by (simp only: mult_right_cancel [OF less_imp_neq [OF B0, symmetric]])
    with xlo xhi have "f64r x = Fin x" by (rule f64r_half_integer)
    then have "Y = A" using y(1) by (simp add: Y_def xB)
    then show ?thesis using t by linarith
  next
    case False
    have "rat_of_int (2 * (k * b)) \<le> of_int (2 * a + b)"
      using PB(1) by (simp add: P_def A_def B_def)
    then have "2 * (k * b) \<le> 2 * a + b" by (simp only: of_int_le_iff)
    then have "2 * (k * b) + 1 \<le> 2 * a + b" using False by linarith
    then have "rat_of_int (2 * (k * b) + 1) \<le> of_int (2 * a + b)"
      by (simp only: of_int_le_iff)
    then have "2 * P + 1 \<le> 2 * A + B"
      by (simp add: P_def A_def B_def)
    then show ?thesis using Yb(1) A2 by linarith
  qed
  have "of_int k * B \<le> (y + 1 / 2) * B" "(y + 1 / 2) * B < (of_int k + 1) * B"
    using lo hi by (simp_all add: P_def B_def [symmetric] Y_def distrib_right)
  then have "of_int k \<le> y + 1 / 2" "y + 1 / 2 < of_int k + 1"
    using B0 by simp_all
  then have "\<lfloor>y + 1 / 2\<rfloor> = k"
    by (intro floor_unique)
  then show ?thesis
    using y(1) B0 by (simp add: num_def k_def x_def A_def B_def)
qed


section \<open>The order of the numbers\<close>

lemma js_le_simps:
  "js_le (Fin a) (Fin b) \<longleftrightarrow> a \<le> b" "js_le (Fin a) PosInf" "js_le PosInf PosInf"
  "\<not> js_le PosInf (Fin b)" "\<not> js_le v NaN" "\<not> js_le NaN v" "\<not> js_le (Fin a) NegInf"
  "\<not> js_le PosInf NegInf"
  by (cases v; auto)+

declare js_le.simps [simp del]

lemma js_le_nonneg_cases:
  assumes "js_le (Fin 0) a"
  obtains (fin) x where "a = Fin x" and "0 \<le> x" | (inf) "a = PosInf"
  using assms by (cases a) (auto simp: js_le_simps)

lemma f64_nonneg_mono:
  assumes "js_le (Fin 0) a" and "js_le a b"
  shows "js_le (Fin 0) (f64 a) \<and> js_le (f64 a) (f64 b)"
proof -
  have nn: "js_le (Fin 0) (f64r x)" if "0 \<le> x" for x
    using f64r_mono [of 0 x] that by simp
  have top: "js_le (f64r x) PosInf" if "0 \<le> x" for x
    using nn [OF that] by (cases "f64r x") (auto simp: js_le_simps)
  from assms(1) show ?thesis
  proof (cases rule: js_le_nonneg_cases)
    case (fin x)
    with assms(2) show ?thesis
      by (cases b) (auto simp: nn top f64r_mono js_le_simps)
  next
    case inf
    with assms(2) show ?thesis
      by (cases b) (auto simp: js_le_simps)
  qed
qed

lemma js_mul_nonneg_mono:
  assumes "0 < c" and "js_le (Fin 0) a" and "js_le a b"
  shows "js_le (Fin 0) (js_mul a (Fin c)) \<and> js_le (js_mul a (Fin c)) (js_mul b (Fin c))"
  using assms(2)
proof (cases rule: js_le_nonneg_cases)
  case (fin x)
  with assms(1,3) show ?thesis
    by (cases b) (auto simp: inf_of_sign_def mult_right_mono js_le_simps)
next
  case inf
  with assms(1,3) show ?thesis
    by (cases b) (auto simp: inf_of_sign_def js_le_simps)
qed

lemma js_div_nonneg_mono:
  assumes "0 < c" and "js_le (Fin 0) a" and "js_le a b"
  shows "js_le (Fin 0) (js_div a (Fin c)) \<and> js_le (js_div a (Fin c)) (js_div b (Fin c))"
  using assms(2)
proof (cases rule: js_le_nonneg_cases)
  case (fin x)
  with assms(1,3) show ?thesis
    by (cases b) (auto simp: divide_right_mono js_le_simps)
next
  case inf
  with assms(1,3) show ?thesis
    by (cases b) (auto simp: js_le_simps)
qed

lemma js_round_nonneg_mono:
  assumes "js_le (Fin 0) a" and "js_le a b"
  shows "js_le (Fin 0) (js_round a) \<and> js_le (js_round a) (js_round b)"
  using assms(1)
proof (cases rule: js_le_nonneg_cases)
  case (fin x)
  then have "0 \<le> \<lfloor>x + 1 / 2\<rfloor>" by simp
  with fin assms(2) show ?thesis
    by (cases b) (auto simp: floor_mono js_le_simps)
next
  case inf
  with assms(2) show ?thesis
    by (cases b) (auto simp: js_le_simps)
qed


section \<open>The improvement rate\<close>

lemma improvementRate_refines:
  assumes "4 \<le> length history"
  shows "calculateImprovementRate history = improvementRate_spec history"
  using assms
  by (simp add: calculateImprovementRate_def improvementRate_spec_def Let_def halfPoint
      slice_0 slice_from_eq reduce_sum arithmetic_mean_def comp_def min_def)


text \<open>
  Further values. On the last two histories the rounding of the operations decides the
  result: the exact percentages are -27.5 and 0.5, and the results in binary64 arithmetic
  are -28 and 0. The same holds of the scores 63, 63, 40, 40, with 57.5 and 57.
\<close>

lemma improvement_rate_binary64_examples:
  "calculateImprovementRate (map session [90, 70, 50, 30, 10]) = num 167"
  "calculateImprovementRate (map session [50, 66, 60, 100]) = num (- 28)"
  "calculateImprovementRate (map session [67, 67, 67, 66, 67, 67]) = num 0"
  by code_simp+

text \<open>
  C1. For a history of at least four sessions, most recent first, the improvement rate is
  computed from the mean score of the first \<open>floor(n/2)\<close> sessions and the mean score of
  the rest as \<open>round(((recentAvg - olderAvg) / olderAvg) * 100)\<close>, in binary64
  arithmetic; for the scores 80, 60, 40, 20 it is 133.
\<close>

theorem improvement_rate_halves:
  "(4 \<le> length history \<longrightarrow> calculateImprovementRate history = improvementRate_spec history)
   \<and> calculateImprovementRate (map session [80, 60, 40, 20]) = num 133"
proof
  show "4 \<le> length history \<longrightarrow> calculateImprovementRate history = improvementRate_spec history"
    by (simp add: improvementRate_refines)
  show "calculateImprovementRate (map session [80, 60, 40, 20]) = num 133"
    by code_simp
qed

theorem improvement_rate_halves_witness:
  "4 \<le> length (map session [63, 63, 40, 40])
   \<and> calculateImprovementRate (map session [63, 63, 40, 40]) =
       improvementRate_spec (map session [63, 63, 40, 40])
   \<and> improvementRate_spec (map session [63, 63, 40, 40]) = num 57"
proof -
  have "improvementRate_spec (map session [63, 63, 40, 40]) = num 57"
    by code_simp
  then show ?thesis
    using improvement_rate_halves [of "map session [63, 63, 40, 40]"] by simp
qed

lemma arithmetic_mean_zero:
  assumes "xs \<noteq> []" and "sum_list xs = 0"
  shows "arithmetic_mean xs = Fin 0"
  using assms by (simp add: arithmetic_mean_def num_def)

lemma arithmetic_mean_finite:
  assumes "xs \<noteq> []"
  shows "arithmetic_mean xs = Fin (rat_of_int (sum_list xs) / rat_of_nat (length xs))"
  using assms by (simp add: arithmetic_mean_def num_def)


lemma division_by_zero_not_finite: "\<not> isFinite (js_div v (Fin 0))"
  by (cases v) (simp_all add: isFinite_def inf_of_sign_def)

lemma not_finite_kept:
  assumes "\<not> isFinite v"
  shows "\<not> isFinite (js_round (f64 (js_mul (f64 v) (num 100))))"
  using assms by (cases v) (simp_all add: isFinite_def inf_of_sign_def num_def)

text \<open>
  With an older half whose scores sum to 0, the quotient is taken by zero and the rate is
  an infinity or NaN, whatever the recent half is.
\<close>

lemma older_half_zero_not_finite:
  assumes "4 \<le> length history"
    and "sum_list (map score (drop (length history div 2) history)) = 0"
  shows "\<not> isFinite (calculateImprovementRate history)"
proof -
  let ?recent = "map score (take (length history div 2) history)"
  let ?older = "map score (drop (length history div 2) history)"
  have "?older \<noteq> []"
    using assms(1) by auto
  then have o: "f64 (arithmetic_mean ?older) = Fin 0"
    using assms(2) by (simp add: arithmetic_mean_zero)
  have "calculateImprovementRate history =
      js_round (f64 (js_mul (f64 (js_div
        (f64 (js_sub (f64 (arithmetic_mean ?recent)) (Fin 0))) (Fin 0))) (num 100)))"
    using assms(1) o by (simp add: improvementRate_refines improvementRate_spec_def Let_def)
  then show ?thesis
    by (simp only: not_finite_kept [OF division_by_zero_not_finite] not_False_eq_True)
qed

text \<open>
  C2. A history of at least four sessions whose older half averages exactly 0 should get
  a result fixed by an explicit policy. The computation has no such policy: for the scores
  80, 60, 0, 0 it returns Infinity, and for four scores of 0 it returns NaN.
\<close>

theorem improvement_rate_zero_older_half:
  "calculateImprovementRate (map session [80, 60, 0, 0]) = PosInf
   \<and> calculateImprovementRate (map session [0, 0, 0, 0]) = NaN"
  by code_simp


text \<open>
  C5. For a history of fewer than four sessions the improvement rate is 0, the badge with
  the arrow is not rendered, and no plus sign is put before the number.
\<close>

theorem short_history_no_indicator:
  "length history < 4 \<Longrightarrow>
     calculateImprovementRate history = num 0 \<and> improvementIndicator history = None
     \<and> improvementSign history = ''''"
  by (simp add: calculateImprovementRate_def improvementIndicator_def improvementSign_def
      js_gt_def num_def)

theorem short_history_no_indicator_witness:
  "length (map session [70, 40, 90]) < 4
   \<and> calculateImprovementRate (map session [70, 40, 90]) = num 0
   \<and> improvementIndicator (map session [70, 40, 90]) = None
   \<and> improvementSign (map session [70, 40, 90]) = ''''"
  using short_history_no_indicator [of "map session [70, 40, 90]"] by simp


section \<open>The win rate\<close>

lemma lit_0_7_value: "lit_0_7 = Fin (3152519739159347 / 4503599627370496)"
  by code_simp

lemma abs_le_split:
  fixes y x d :: rat
  assumes "\<bar>y - x\<bar> \<le> d"
  shows "x - d \<le> y" and "y \<le> x + d"
  using assms by linarith+

text \<open>
  Up to \<open>2\<^sup>4\<^sup>4\<close> sessions the two rounded products stay within a half of \<open>70 n\<close>, so that
  \<open>Math.round\<close> returns \<open>70 n\<close>.
\<close>

lemma winRate_round:
  assumes "0 < n" and "n \<le> 2 ^ 44"
  shows "js_round (f64 (js_mul (f64 (js_mul (num n) lit_0_7)) (num 100))) = Fin (of_int (70 * n))"
proof -
  define N :: rat where "N = of_int n"
  define x1 :: rat where "x1 = N * (3152519739159347 / 4503599627370496)"
  have "1 \<le> n" using assms(1) by simp
  then have "rat_of_int 1 \<le> of_int n" by (simp only: of_int_le_iff)
  then have N1: "1 \<le> N" by (simp add: N_def)
  have "rat_of_int n \<le> of_int (2 ^ 44)" using assms(2) by (simp only: of_int_le_iff)
  then have N2: "N \<le> 17592186044416" by (simp add: N_def)
  have "2 powi (- 1) \<le> x1" and "x1 < 2 powi 44"
    using N1 N2 by (simp_all add: x1_def power_int_minus)
  then obtain y1 where y1: "f64r x1 = Fin y1" "\<bar>y1 - x1\<bar> \<le> x1 / 2 ^ 53"
    using f64r_error_range [of "- 1" x1 44] by auto
  have y1b: "x1 - x1 / 9007199254740992 \<le> y1" "y1 \<le> x1 + x1 / 9007199254740992"
    using abs_le_split [OF y1(2)] by simp_all
  define x2 :: rat where "x2 = y1 * 100"
  have "2 powi 5 \<le> x2" and "x2 < 2 powi 51"
    using N1 N2 y1b by (simp_all add: x2_def x1_def)
  then obtain y2 where y2: "f64r x2 = Fin y2" "\<bar>y2 - x2\<bar> \<le> x2 / 2 ^ 53"
    using f64r_error_range [of 5 x2 51] by auto
  have y2b: "x2 - x2 / 9007199254740992 \<le> y2" "y2 \<le> x2 + x2 / 9007199254740992"
    using abs_le_split [OF y2(2)] by simp_all
  have lo: "70 * N \<le> y2 + 1 / 2"
    using N1 N2 y1b y2b unfolding x2_def x1_def by linarith
  have hi: "y2 + 1 / 2 < 70 * N + 1"
    using N1 N2 y1b y2b unfolding x2_def x1_def by linarith
  have "\<lfloor>y2 + 1 / 2\<rfloor> = 70 * n"
    using lo hi by (intro floor_unique) (simp_all add: N_def)
  moreover have "f64 (js_mul (f64 (js_mul (num n) lit_0_7)) (num 100)) = Fin y2"
    using y1(1) y2(1) by (simp add: lit_0_7_value num_def x1_def x2_def N_def)
  ultimately show ?thesis by simp
qed


text \<open>The win rate of a positive count, as a function of the exact first product.\<close>

lemma winRate_chain:
  assumes "js_le (Fin 0) a" and "js_le a b"
  shows "js_le (Fin 0) (f64 (js_div (js_round (f64 (js_mul (f64 a) (num 100)))) (num 100)))
    \<and> js_le (f64 (js_div (js_round (f64 (js_mul (f64 a) (num 100)))) (num 100)))
        (f64 (js_div (js_round (f64 (js_mul (f64 b) (num 100)))) (num 100)))"
proof -
  note s1 = f64_nonneg_mono [OF assms]
  note s2 = js_mul_nonneg_mono [of 100, OF _ conjunct1 [OF s1] conjunct2 [OF s1], simplified]
  note s3 = f64_nonneg_mono [OF conjunct1 [OF s2] conjunct2 [OF s2]]
  note s4 = js_round_nonneg_mono [OF conjunct1 [OF s3] conjunct2 [OF s3]]
  note s5 = js_div_nonneg_mono [of 100, OF _ conjunct1 [OF s4] conjunct2 [OF s4], simplified]
  note s6 = f64_nonneg_mono [OF conjunct1 [OF s5] conjunct2 [OF s5]]
  show ?thesis
    using s6 by (simp add: num_def)
qed

lemma winRate_positive:
  assumes "0 < totalSessions s"
  shows "winRate (Some s) = winRate_spec (totalSessions s)"
  using assms by (simp add: winRate_def winRate_spec_def)

lemma winRate_not_positive:
  assumes "totalSessions s \<le> 0"
  shows "winRate (Some s) = Fin 0"
  using assms by (simp add: winRate_def num_def)

lemma winRate_null: "winRate None = num 0"
  by (simp add: winRate_def)

lemma winRate_spec_zero: "winRate_spec 0 = Fin 0"
  by code_simp

lemma winRate_spec_mono:
  assumes "0 \<le> m" and "m \<le> n"
  shows "js_le (Fin 0) (winRate_spec m) \<and> js_le (winRate_spec m) (winRate_spec n)"
proof -
  have "rat_of_int 0 \<le> of_int m" and "rat_of_int m \<le> of_int n"
    using assms by (simp_all only: of_int_le_iff)
  then have "js_le (Fin 0) (js_mul (num m) lit_0_7)"
    and "js_le (js_mul (num m) lit_0_7) (js_mul (num n) lit_0_7)"
    by (simp_all add: num_def lit_0_7_value mult_right_mono js_le_simps)
  then show ?thesis
    unfolding winRate_spec_def by (rule winRate_chain)
qed

lemma winRate_spec_closed:
  assumes "0 \<le> n" and "n \<le> 2 ^ 44"
  shows "winRate_spec n = f64r (rat_of_int n * 7 / 10)"
proof (cases "n = 0")
  case True
  then show ?thesis by (simp add: winRate_spec_zero)
next
  case False
  then have "0 < n" using assms(1) by simp
  then have r: "js_round (f64 (js_mul (f64 (js_mul (num n) lit_0_7)) (num 100))) = Fin (of_int (70 * n))"
    using assms(2) by (rule winRate_round)
  have eq: "rat_of_int (70 * n) / 100 = rat_of_int n * 7 / 10"
    by simp
  have "winRate_spec n = f64r (rat_of_int (70 * n) / 100)"
    unfolding winRate_spec_def r by (simp add: num_def del: of_int_mult)
  then show ?thesis
    by (simp only: eq)
qed



text \<open>
  C3. For a session count \<open>n\<close>, the win rate is \<open>round(n * 0.7 * 100) / 100\<close>, in
  binary64 arithmetic; it is 0 for \<open>n = 0\<close>, and it does not decrease when \<open>n\<close> grows.
  Up to \<open>2\<^sup>4\<^sup>4\<close> sessions \<open>Math.round\<close> returns \<open>70 n\<close> exactly, so that the win rate is
  the binary64 number nearest to \<open>7 n / 10\<close>.
\<close>

theorem winRate_formula:
  "(0 \<le> n \<longrightarrow> winRate (Some (s\<lparr>totalSessions := n\<rparr>)) = winRate_spec n)
   \<and> winRate (Some (s\<lparr>totalSessions := 0\<rparr>)) = num 0
   \<and> (m \<le> n \<longrightarrow>
        js_le (winRate (Some (s\<lparr>totalSessions := m\<rparr>))) (winRate (Some (s\<lparr>totalSessions := n\<rparr>))))
   \<and> (0 \<le> n \<and> n \<le> 2 ^ 44 \<longrightarrow>
        winRate (Some (s\<lparr>totalSessions := n\<rparr>)) = f64r (rat_of_int n * 7 / 10))"
proof (intro conjI impI)
  have val: "winRate (Some (s\<lparr>totalSessions := k\<rparr>)) = winRate_spec (max k 0)" for k
    by (cases "0 < k") (simp_all add: winRate_positive winRate_not_positive winRate_spec_zero max_def)
  show "winRate (Some (s\<lparr>totalSessions := n\<rparr>)) = winRate_spec n" if "0 \<le> n"
    using that by (simp add: val max_def)
  show "winRate (Some (s\<lparr>totalSessions := 0\<rparr>)) = num 0"
    by (simp add: winRate_not_positive num_def)
  show "js_le (winRate (Some (s\<lparr>totalSessions := m\<rparr>))) (winRate (Some (s\<lparr>totalSessions := n\<rparr>)))"
    if "m \<le> n"
  proof -
    have "0 \<le> max m 0" and "max m 0 \<le> max n 0"
      using that by simp_all
    then show ?thesis
      unfolding val using winRate_spec_mono by blast
  qed
  show "winRate (Some (s\<lparr>totalSessions := n\<rparr>)) = f64r (rat_of_int n * 7 / 10)"
    if "0 \<le> n \<and> n \<le> 2 ^ 44"
  proof -
    have "winRate_spec n = f64r (rat_of_int n * 7 / 10)"
      using that by (simp add: winRate_spec_closed)
    moreover have "max n 0 = n"
      using that by simp
    ultimately show ?thesis
      by (simp only: val)
  qed
qed

theorem winRate_formula_witness:
  "(0::int) \<le> 3 \<and> (2::int) \<le> 3 \<and> (3::int) \<le> 2 ^ 44
   \<and> winRate (Some \<lparr>totalSessions = 3, totalMinutes = 15\<rparr>) = winRate_spec 3
   \<and> winRate (Some \<lparr>totalSessions = 3, totalMinutes = 15\<rparr>) = f64r (21 / 10)
   \<and> winRate_spec 3 = Fin (4728779608739021 / 2251799813685248)
   \<and> winRate (Some \<lparr>totalSessions = 0, totalMinutes = 15\<rparr>) = num 0
   \<and> js_le (winRate (Some \<lparr>totalSessions = 2, totalMinutes = 15\<rparr>))
        (winRate (Some \<lparr>totalSessions = 3, totalMinutes = 15\<rparr>))"
proof -
  have v: "winRate_spec 3 = Fin (4728779608739021 / 2251799813685248)"
    by code_simp
  have "rat_of_int 3 * 7 / 10 = 21 / 10"
    by simp
  then show ?thesis
    using v winRate_formula [of 3 "\<lparr>totalSessions = 3, totalMinutes = 15\<rparr>" 2] by auto
qed

section \<open>The recent averages\<close>

lemma recentAverage_refines:
  assumes "avg = (\<lambda>history.
      if length (recentSessions history) > 0
      then js_round (js_div
             (num (reduce (\<lambda>sum s. sum + or_zero (subscore s)) 0 (recentSessions history)))
             (num (int (length (recentSessions history)))))
      else num 0)"
  shows "avg history = recentAverage_spec subscore 10 history"
  unfolding assms
  by (simp add: recentAverage_spec_def recentSessions_take reduce_sum or_zero_absent Let_def)


text \<open>
  The window is not an input: with four sessions whose vocabulary scores are 10, 20, 30
  and 100, the average over a window of 3 would be 20, and the dashboard shows 40, the
  average over all four.
\<close>

theorem recent_window_is_ten:
  "avgVocabulary (map (\<lambda>v. (session 50)\<lparr>vocabularyScore := Some v\<rparr>) [10, 20, 30, 100]) = Fin 40
   \<and> recentAverage_spec vocabularyScore 3
        (map (\<lambda>v. (session 50)\<lparr>vocabularyScore := Some v\<rparr>) [10, 20, 30, 100]) = Fin 20
   \<and> avgVocabulary (map (\<lambda>v. (session 50)\<lparr>vocabularyScore := Some v\<rparr>) [10, 20, 30, 100])
       \<noteq> recentAverage_spec vocabularyScore 3
           (map (\<lambda>v. (session 50)\<lparr>vocabularyScore := Some v\<rparr>) [10, 20, 30, 100])"
  by code_simp

text \<open>
  C4, as amended. Each of the three recent averages is taken over the first 10 entries of
  the history (all of them when there are fewer; the window size is not an input): it is
  the rounded quotient of the sum of the sub-score, 0 where a session has none, by the
  number of sessions in that window, and it is 0 when the window is empty. For three
  sessions with the vocabulary scores 90, none, 60 it is 50.
\<close>

theorem recent_averages:
  "avgVocabulary history = recentAverage_spec vocabularyScore 10 history
   \<and> avgClarity history = recentAverage_spec clarityScore 10 history
   \<and> avgPersuasion history = recentAverage_spec persuasionScore 10 history
   \<and> avgVocabulary [] = num 0 \<and> avgClarity [] = num 0 \<and> avgPersuasion [] = num 0
   \<and> avgVocabulary
        [(session 70)\<lparr>vocabularyScore := Some 90\<rparr>, session 80,
         (session 90)\<lparr>vocabularyScore := Some 60\<rparr>] = num 50"
proof (intro conjI)
  show v: "avgVocabulary history = recentAverage_spec vocabularyScore 10 history" for history
    by (rule recentAverage_refines) (simp add: avgVocabulary_def fun_eq_iff)
  show c: "avgClarity history = recentAverage_spec clarityScore 10 history" for history
    by (rule recentAverage_refines) (simp add: avgClarity_def fun_eq_iff)
  show p: "avgPersuasion history = recentAverage_spec persuasionScore 10 history" for history
    by (rule recentAverage_refines) (simp add: avgPersuasion_def fun_eq_iff)
  show "avgVocabulary [] = num 0" "avgClarity [] = num 0" "avgPersuasion [] = num 0"
    by (simp_all add: v c p recentAverage_spec_def)
  show "avgVocabulary
        [(session 70)\<lparr>vocabularyScore := Some 90\<rparr>, session 80,
         (session 90)\<lparr>vocabularyScore := Some 60\<rparr>] = num 50"
    by code_simp
qed

theorem recent_averages_witness:
  "avgClarity (map (\<lambda>n. (session n)\<lparr>clarityScore := Some n\<rparr>) [1, 2, 3, 4, 5, 6, 7, 8, 9, 10, 11, 12])
     = recentAverage_spec clarityScore 10
         (map (\<lambda>n. (session n)\<lparr>clarityScore := Some n\<rparr>) [1, 2, 3, 4, 5, 6, 7, 8, 9, 10, 11, 12])
   \<and> recentAverage_spec clarityScore 10
         (map (\<lambda>n. (session n)\<lparr>clarityScore := Some n\<rparr>) [1, 2, 3, 4, 5, 6, 7, 8, 9, 10, 11, 12])
     = num 6"
proof -
  have "recentAverage_spec clarityScore 10
         (map (\<lambda>n. (session n)\<lparr>clarityScore := Some n\<rparr>) [1, 2, 3, 4, 5, 6, 7, 8, 9, 10, 11, 12])
     = num 6"
    by code_simp
  then show ?thesis
    using recent_averages [of "map (\<lambda>n. (session n)\<lparr>clarityScore := Some n\<rparr>)
        [1, 2, 3, 4, 5, 6, 7, 8, 9, 10, 11, 12]"]
    by simp
qed

section \<open>The performance score\<close>

text \<open>
  The number on the Performance Score card is the mean passed through \<open>Math.round\<close>: for
  the scores 1 and 2 it is 2, while the mean is 3/2.
\<close>

theorem performanceScore_not_exact_mean:
  "[session 1, session 2] \<noteq> []
   \<and> arithmetic_mean (map score [session 1, session 2]) = Fin (3 / 2)
   \<and> performanceScore [session 1, session 2] = Fin 2
   \<and> performanceScore [session 1, session 2] \<noteq> arithmetic_mean (map score [session 1, session 2])"
  by code_simp

text \<open>
  C6, as amended. For a non-empty history the overall average score is the arithmetic mean
  of the scores rounded to the nearest integer, a half upwards; it is the exact mean
  whenever the mean is an integer. For the empty history it is 0.
\<close>

theorem performanceScore_rounded_mean:
  "(history \<noteq> [] \<longrightarrow>
      performanceScore history = js_round (arithmetic_mean (map score history))
      \<and> performanceScore history =
          Fin (of_int \<lfloor>rat_of_int (sum_list (map score history)) / rat_of_nat (length history) + 1 / 2\<rfloor>)
      \<and> (int (length history) dvd sum_list (map score history) \<longrightarrow>
           performanceScore history = arithmetic_mean (map score history)))
   \<and> performanceScore [] = num 0"
proof (intro conjI impI)
  assume ne: "history \<noteq> []"
  then show rounded: "performanceScore history = js_round (arithmetic_mean (map score history))"
    by (simp add: performanceScore_def arithmetic_mean_def reduce_sum)
  from ne have mean: "arithmetic_mean (map score history) =
      Fin (rat_of_int (sum_list (map score history)) / rat_of_nat (length history))"
    using arithmetic_mean_finite [of "map score history"] by simp
  show "performanceScore history =
      Fin (of_int \<lfloor>rat_of_int (sum_list (map score history)) / rat_of_nat (length history) + 1 / 2\<rfloor>)"
    unfolding rounded mean by simp
  assume "int (length history) dvd sum_list (map score history)"
  then obtain k where k: "sum_list (map score history) = int (length history) * k"
    by (auto simp: dvd_def)
  have "rat_of_int (sum_list (map score history)) / rat_of_nat (length history) = rat_of_int k"
    using ne by (simp add: k)
  then show "performanceScore history = arithmetic_mean (map score history)"
    unfolding rounded mean by (simp add: floor_half)
next
  show "performanceScore [] = num 0"
    by (simp add: performanceScore_def)
qed

theorem performanceScore_rounded_mean_witness:
  "map session [70, 80, 85] \<noteq> []
   \<and> performanceScore (map session [70, 80, 85]) = js_round (arithmetic_mean (map score (map session [70, 80, 85])))
   \<and> js_round (arithmetic_mean (map score (map session [70, 80, 85]))) = Fin 78
   \<and> int (length (map session [60, 80])) dvd sum_list (map score (map session [60, 80]))
   \<and> performanceScore (map session [60, 80]) = arithmetic_mean (map score (map session [60, 80]))"
proof -
  have ne1: "map session [70, 80, 85] \<noteq> []" and ne2: "map session [60, 80] \<noteq> []"
    by simp_all
  have val: "js_round (arithmetic_mean (map score (map session [70, 80, 85]))) = Fin 78"
    by code_simp
  have d: "int (length (map session [60, 80])) dvd sum_list (map score (map session [60, 80]))"
    by (simp add: session_def)
  have p1: "performanceScore (map session [70, 80, 85]) =
      js_round (arithmetic_mean (map score (map session [70, 80, 85])))"
    using performanceScore_rounded_mean [of "map session [70, 80, 85]"] ne1 by blast
  have p2: "performanceScore (map session [60, 80]) = arithmetic_mean (map score (map session [60, 80]))"
    using performanceScore_rounded_mean [of "map session [60, 80]"] ne2 d by blast
  from ne1 p1 val d p2 show ?thesis
    by blast
qed

section \<open>The error fallback's categories\<close>

lemma str_includes_sublist: "str_includes s t = sublist t s"
proof (induction s)
  case Nil
  show ?case by simp
next
  case (Cons c cs)
  have "sublist t (c # cs) \<longleftrightarrow> prefix t (c # cs) \<or> sublist t cs"
    by (rule sublist_Cons_right)
  with Cons show ?case by simp
qed

lemma toLowerCase_append: "toLowerCase (u @ v) = toLowerCase u @ toLowerCase v"
  by (simp add: toLowerCase_def)

text \<open>
  The match in the declarative form: some contiguous part of the message is the keyword up
  to the case of its letters.
\<close>

lemma matches_substring:
  "matches msg keyword \<longleftrightarrow> (\<exists>u w v. msg = u @ w @ v \<and> toLowerCase w = toLowerCase keyword)"
proof
  assume "matches msg keyword"
  then have "\<exists>ps ss. map lower_char msg = ps @ map lower_char keyword @ ss"
    by (simp add: matches_def sublist_def toLowerCase_def)
  then obtain ps ss where "map lower_char msg = ps @ (map lower_char keyword @ ss)"
    by (elim exE)
  then have "\<exists>us vs. msg = us @ vs \<and> ps = map lower_char us
      \<and> map lower_char keyword @ ss = map lower_char vs"
    by (rule iffD1 [OF map_eq_append_conv])
  then obtain u r where u: "msg = u @ r" and "map lower_char keyword @ ss = map lower_char r"
    by (elim exE conjE)
  then have "\<exists>us vs. r = us @ vs \<and> map lower_char keyword = map lower_char us
      \<and> ss = map lower_char vs"
    by (intro iffD1 [OF append_eq_map_conv])
  then obtain w v where w: "r = w @ v" and k: "map lower_char keyword = map lower_char w"
    by (elim exE conjE)
  have "msg = u @ w @ v \<and> toLowerCase w = toLowerCase keyword"
    using u w k by (simp add: toLowerCase_def)
  then show "\<exists>u w v. msg = u @ w @ v \<and> toLowerCase w = toLowerCase keyword"
    by (intro exI)
next
  assume "\<exists>u w v. msg = u @ w @ v \<and> toLowerCase w = toLowerCase keyword"
  then obtain u w v where "msg = u @ w @ v" and "toLowerCase w = toLowerCase keyword"
    by (elim exE conjE)
  then have "toLowerCase msg = toLowerCase u @ toLowerCase keyword @ toLowerCase v"
    by (simp add: toLowerCase_append)
  then have "\<exists>ps ss. toLowerCase msg = ps @ toLowerCase keyword @ ss"
    by (intro exI)
  then show "matches msg keyword"
    by (simp add: matches_def sublist_def)
qed

lemma includes_keyword:
  assumes "toLowerCase keyword = keyword"
  shows "str_includes (toLowerCase msg) keyword = matches msg keyword"
  using assms by (simp add: str_includes_sublist matches_def)

lemma keywords_lowercase:
  "toLowerCase ''spline'' = ''spline''" "toLowerCase ''3d'' = ''3d''"
  "toLowerCase ''scene'' = ''scene''" "toLowerCase ''calculate'' = ''calculate''"
  "toLowerCase ''persona'' = ''persona''" "toLowerCase ''data'' = ''data''"
  "toLowerCase ''invalid'' = ''invalid''"
  by (simp_all add: toLowerCase_def lower_char_def)

lemma getErrorMessage_title:
  "title (getErrorMessage (Some e)) = category_title (categorize (message e))"
  by (simp add: getErrorMessage_def categorize_def Let_def includes_keyword keywords_lowercase)

text \<open>
  C7. The title shown for an error is decided by case-insensitive substring matches on
  its message, the first matching category winning: spline, 3d or scene give the 3D scene
  category, then calculate or persona the calculation category, then data or invalid the
  data category, and anything else the generic one. "Failed to load Spline scene" is in
  the 3D scene category, and so is every message that contains both data and spline.
\<close>

theorem error_categories:
  "title (getErrorMessage (Some e)) = category_title (categorize (message e))
   \<and> title (getErrorMessage (Some (Error ''Failed to load Spline scene''))) = ''3D Scene Loading Error''
   \<and> (matches (message e) ''data'' \<and> matches (message e) ''spline'' \<longrightarrow>
        categorize (message e) = Scene3D
        \<and> title (getErrorMessage (Some e)) = ''3D Scene Loading Error'')"
proof (intro conjI impI)
  show "title (getErrorMessage (Some e)) = category_title (categorize (message e))"
    by (rule getErrorMessage_title)
  show "title (getErrorMessage (Some (Error ''Failed to load Spline scene''))) = ''3D Scene Loading Error''"
    by code_simp
next
  assume "matches (message e) ''data'' \<and> matches (message e) ''spline''"
  then show c: "categorize (message e) = Scene3D"
    by (simp add: categorize_def)
  then show "title (getErrorMessage (Some e)) = ''3D Scene Loading Error''"
    by (simp add: getErrorMessage_title)
qed

theorem error_categories_witness:
  "matches (message (Error ''Invalid DATA in Spline file'')) ''data''
   \<and> matches (message (Error ''Invalid DATA in Spline file'')) ''spline''
   \<and> categorize (message (Error ''Invalid DATA in Spline file'')) = Scene3D
   \<and> title (getErrorMessage (Some (Error ''Invalid DATA in Spline file''))) = ''3D Scene Loading Error''
   \<and> title (getErrorMessage (Some (Error ''Cannot calculate: invalid input''))) =
       category_title (categorize (message (Error ''Cannot calculate: invalid input'')))
   \<and> categorize (message (Error ''Cannot calculate: invalid input'')) = Calculation"
proof -
  have m: "matches (message (Error ''Invalid DATA in Spline file'')) ''data''"
    "matches (message (Error ''Invalid DATA in Spline file'')) ''spline''"
    by code_simp+
  have c: "categorize (message (Error ''Cannot calculate: invalid input'')) = Calculation"
    by code_simp
  show ?thesis
    using m c error_categories [of "Error ''Invalid DATA in Spline file''"]
      error_categories [of "Error ''Cannot calculate: invalid input''"]
    by blast
qed


section \<open>Inputs outside the declared constraints\<close>






section \<open>The archetype icon\<close>

lemma getArchetypeIcon_defined: "getArchetypeIcon iconName \<noteq> Undefined"
  by (cases "property icons (toLowerCase iconName)") (simp_all add: getArchetypeIcon_def Let_def)

lemma getArchetypeIcon_case_insensitive:
  assumes "toLowerCase a = toLowerCase b"
  shows "getArchetypeIcon a = getArchetypeIcon b"
  using assms by (simp add: getArchetypeIcon_def)

lemma getArchetypeIcon_mapped:
  assumes "map_of icons (toLowerCase iconName) = Some c"
  shows "getArchetypeIcon iconName = Component c"
  using assms by (simp add: getArchetypeIcon_def property_def)

lemma getArchetypeIcon_fallback:
  assumes "map_of icons (toLowerCase iconName) = None"
    and "\<not> List.member Object_prototype (toLowerCase iconName)"
  shows "getArchetypeIcon iconName = Component Brain"
  using assms by (simp add: getArchetypeIcon_def property_def)

text \<open>
  C9. The icon lookup should give an icon component for every name, Brain for a name that
  is not mapped. For the unmapped names constructor and __proto__ (in any case of the
  letters) the property read finds an inherited member of the object, which is truthy, so
  the lookup returns it and not Brain.
\<close>

theorem getArchetypeIcon_inherited_member:
  "map_of icons ''constructor'' = None
   \<and> getArchetypeIcon ''constructor'' = Inherited ''constructor''
   \<and> getArchetypeIcon ''Constructor'' = Inherited ''constructor''
   \<and> getArchetypeIcon ''__proto__'' = Inherited ''__proto__''
   \<and> getArchetypeIcon ''constructor'' \<noteq> Component Brain"
  by code_simp

section \<open>The archetype card's lock\<close>

text \<open>
  C10. An archetype without the \<open>isLocked\<close> field is treated as unlocked: the button is
  enabled and carries the caller's handler. For a locked archetype the button is disabled
  and carries no handler, so a click leaves the caller's state as it is.
\<close>

theorem locked_card_ignores_click:
  "(isLocked archetype = None \<longrightarrow>
      \<not> button_disabled (ArchetypeCardComponent archetype isActive onClick)
      \<and> button_onClick (ArchetypeCardComponent archetype isActive onClick) = onClick)
   \<and> (isLocked archetype = Some True \<longrightarrow>
      button_disabled (ArchetypeCardComponent archetype isActive onClick)
      \<and> button_onClick (ArchetypeCardComponent archetype isActive onClick) = None
      \<and> click (ArchetypeCardComponent archetype isActive onClick) st = st)"
  by (simp add: ArchetypeCardComponent_def click_def)

theorem locked_card_ignores_click_witness:
  "isLocked \<lparr>name = ''The Strategist'', icon = ''brain'', color = ''#a3e635'',
       archetype_description = ''Plans ahead'', isLocked = Some True,
       unlockRequirements = Some [''Complete 5 sessions'']\<rparr> = Some True
   \<and> button_disabled (ArchetypeCardComponent
        \<lparr>name = ''The Strategist'', icon = ''brain'', color = ''#a3e635'',
         archetype_description = ''Plans ahead'', isLocked = Some True,
         unlockRequirements = Some [''Complete 5 sessions'']\<rparr> False (Some Suc))
   \<and> click (ArchetypeCardComponent
        \<lparr>name = ''The Strategist'', icon = ''brain'', color = ''#a3e635'',
         archetype_description = ''Plans ahead'', isLocked = Some True,
         unlockRequirements = Some [''Complete 5 sessions'']\<rparr> False (Some Suc)) (0::nat) = 0
   \<and> isLocked \<lparr>name = ''The Empath'', icon = ''heart'', color = ''#f472b6'',
       archetype_description = ''Listens first'', isLocked = None,
       unlockRequirements = None\<rparr> = None
   \<and> click (ArchetypeCardComponent
        \<lparr>name = ''The Empath'', icon = ''heart'', color = ''#f472b6'',
         archetype_description = ''Listens first'', isLocked = None,
         unlockRequirements = None\<rparr> True (Some Suc)) (0::nat) = 1"
proof -
  have unlocked: "click (ArchetypeCardComponent
        \<lparr>name = ''The Empath'', icon = ''heart'', color = ''#f472b6'',
         archetype_description = ''Listens first'', isLocked = None,
         unlockRequirements = None\<rparr> True (Some Suc)) (0::nat) = 1"
    by (simp add: ArchetypeCardComponent_def click_def)
  show ?thesis
    using unlocked
      locked_card_ignores_click [of "\<lparr>name = ''The Strategist'', icon = ''brain'',
        color = ''#a3e635'', archetype_description = ''Plans ahead'', isLocked = Some True,
        unlockRequirements = Some [''Complete 5 sessions'']\<rparr>" False "Some Suc" "0::nat"]
    by simp
qed

end
